theory Spec2Isabelle
  imports Main "HOL-Library.Word" "HOL-Library.Sublist"
begin

unbundle bit_operations_syntax

section \<open>The Target value\<close>

text \<open>
  Modelled from the spec: the header Target.h, which declares the struct \<open>Target\<close> and its
  enumerations, is not part of the sources. Target.cpp names the OS values OSUnknown, Linux,
  Windows, OSX, Android, IOS and NaCl and the architectures X86 and ARM; the fields are the
  four arguments of the constructor call \<open>Target(os, arch, bits, features)\<close>, with
  \<open>int bits\<close> and \<open>uint64_t features\<close>.
\<close>

datatype OS = OSUnknown | Linux | Windows | OSX | Android | IOS | NaCl

datatype Arch = X86 | ARM

record Target =
  os :: OS
  arch :: Arch
  bits :: int
  features :: "64 word"

text \<open>
  Modelled from the spec: the values of the feature constants of Target.h are not in the
  sources. The spec calls the six flags independent, and Target.cpp combines them with
  \<open>|\<close> and tests them with \<open>&\<close>, so each is one bit of its own in the feature
  word, numbered here in the order in which the spec lists them.
\<close>

definition SSE41 :: "64 word" where "SSE41 = 1"
definition AVX :: "64 word" where "AVX = 2"
definition AVX2 :: "64 word" where "AVX2 = 4"
definition CUDA :: "64 word" where "CUDA = 8"
definition OpenCL :: "64 word" where "OpenCL = 16"
definition GPUDebug :: "64 word" where "GPUDebug = 32"

text \<open>\<open>t.features & flag\<close> used as a condition: true when the result is not zero.\<close>

definition has_feature :: "64 word \<Rightarrow> 64 word \<Rightarrow> bool" where
  "has_feature fs flag = (fs AND flag \<noteq> 0)"

section \<open>Fatal errors\<close>

text \<open>
  Every \<open>assert\<close> of Target.cpp that can fail ends the process. A failed run
  is \<open>Inl e\<close>, where \<open>e\<close> names the assertion:
  \<open>Did_Not_Understand target\<close> is the \<open>assert(false)\<close> of the token
  chain, reached after the message with the whole string \<open>target\<close> has been
  written to \<open>std::cerr\<close>, and \<open>Link_Failure err_msg\<close> the one of the
  link loop. \<open>No_Modules\<close> stands for reading \<open>modules[0]\<close> of an empty
  vector, which the code never does.
\<close>

datatype error =
    No_SSE2
  | Did_Not_Understand string
  | OS_Twice
  | Arch_Twice
  | Bits_Twice
  | Bad_Bits
  | No_Modules
  | Link_Failure string

text \<open>What \<open>std::cerr\<close> receives from the code before the process ends.\<close>

definition expected_format :: string where
  "expected_format =
     ''Expected format is arch-os-feature1-feature2-... '' @
     ''Where arch is host, x86-32, x86-64, arm-32, arm-64, '' @
     ''and os is host, linux, windows, osx, nacl, ios, android. '' @
     ''Features include sse41, avx, avx2, cuda, and opencl.'' @ [CHR 0x0A]"

fun cerr_output :: "error \<Rightarrow> string" where
  "cerr_output (Did_Not_Understand target) =
     ''Did not understand HL_TARGET='' @ target @ [CHR 0x0A] @ expected_format"
| "cerr_output (Link_Failure err_msg) =
     ''Failure linking initial modules: '' @ err_msg @ [CHR 0x0A]"
| "cerr_output _ = []"

text \<open>The text inside the failed assertion, which \<open>assert\<close> reports.\<close>

fun assert_message :: "error \<Rightarrow> string" where
  "assert_message No_SSE2 = ''The x86 backend assumes at least sse2 support''"
| "assert_message OS_Twice = ''Target string specifies OS twice''"
| "assert_message Arch_Twice = ''Target string specifies architecture twice''"
| "assert_message Bits_Twice = ''Target string specifies bits twice''"
| "assert_message Bad_Bits = ''t.bits == 32 || t.bits == 64''"
| "assert_message _ = ''false''"

section \<open>Host detection\<close>

text \<open>
  \<open>cpuid(info, infoType, extra)\<close> fills \<open>int info[4]\<close> with the registers
  eax, ebx, ecx and edx. The processor is a parameter: a function from the leaf and the
  sub-leaf to the four registers.
\<close>

record cpuid_info =
  info_0 :: "32 word"
  info_1 :: "32 word"
  info_2 :: "32 word"
  info_3 :: "32 word"

type_synonym cpuid = "int \<Rightarrow> int \<Rightarrow> cpuid_info"

text \<open>
  What the preprocessor and the compiler fix: the macros \<open>__linux__\<close>, \<open>_MSC_VER\<close>,
  \<open>__APPLE__\<close> and \<open>__arm__\<close>, and whether \<open>sizeof(size_t) == 8\<close>.
\<close>

record build =
  def_linux :: bool
  def_MSC_VER :: bool
  def_APPLE :: bool
  def_arm :: bool
  size_t_is_8 :: bool

definition host_os :: "build \<Rightarrow> OS" where
  "host_os b =
     (let os = OSUnknown;
          os = (if def_linux b then Linux else os);
          os = (if def_MSC_VER b then Windows else os);
          os = (if def_APPLE b then OSX else os)
      in os)"

text \<open>\<open>info[k] & (1 << n)\<close> converted to \<open>bool\<close>.\<close>

definition test_bit :: "32 word \<Rightarrow> nat \<Rightarrow> bool" where
  "test_bit w n = (w AND push_bit n 1 \<noteq> 0)"

definition get_host_target :: "build \<Rightarrow> cpuid \<Rightarrow> error + Target" where
  "get_host_target b cpu =
     (let os = host_os b;
          use_64_bits = size_t_is_8 b;
          bits = (if use_64_bits then 64 else 32)
      in if def_arm b then Inr \<lparr>os = os, arch = ARM, bits = bits, features = 0\<rparr>
         else
           let arch = X86;
               info = cpu 1 0;
               have_sse41 = test_bit (info_2 info) 19;
               have_sse2 = test_bit (info_3 info) 26;
               have_avx = test_bit (info_2 info) 28;
               have_f16 = test_bit (info_2 info) 29;
               have_rdrand = test_bit (info_2 info) 30
           in if \<not> have_sse2 then Inl No_SSE2
              else
                let features = 0;
                    features = (if have_sse41 then features OR SSE41 else features);
                    features = (if have_avx then features OR AVX else features);
                    features =
                      (if use_64_bits \<and> have_avx \<and> have_f16 \<and> have_rdrand then
                         let info2 = cpu 7 0;
                             have_avx2 = test_bit (info_2 info) 5
                         in if have_avx2 then features OR AVX2 else features
                       else features)
                in Inr \<lparr>os = os, arch = arch, bits = bits, features = features\<rparr>)"

section \<open>The override string HL_TARGET\<close>

text \<open>\<open>rest.find('-')\<close>: the index of the first occurrence, \<open>None\<close> for \<open>string::npos\<close>.\<close>

fun find_char :: "char \<Rightarrow> string \<Rightarrow> nat option" where
  "find_char c [] = None"
| "find_char c (x # xs) = (if x = c then Some 0 else map_option Suc (find_char c xs))"

text \<open>
  The splitting loop together with the \<open>tokens.push_back(rest)\<close> that follows it;
  \<open>substr(0, first_dash)\<close> is \<open>take\<close> and \<open>substr(first_dash + 1)\<close> is \<open>drop\<close>.
\<close>

function split_tokens :: "string \<Rightarrow> string list \<Rightarrow> string list" where
  "split_tokens rest tokens =
     (case find_char CHR ''-'' rest of
        Some first_dash \<Rightarrow>
          split_tokens (drop (first_dash + 1) rest) (tokens @ [take first_dash rest])
      | None \<Rightarrow> tokens @ [rest])"
  by pat_completeness auto
termination
proof (relation "measure (\<lambda>(rest, tokens). length rest)")
  show "wf (measure (\<lambda>(rest, tokens). length rest))"
    by simp
next
  fix rest :: string and tokens :: "string list" and first_dash :: nat
  assume found: "find_char CHR ''-'' rest = Some first_dash"
  have "find_char c s = Some i \<Longrightarrow> i < length s" for c s i
    by (induction s arbitrary: i) (auto split: if_splits)
  from this [OF found]
  show "((drop (first_dash + 1) rest, tokens @ [take first_dash rest]), (rest, tokens))
          \<in> measure (\<lambda>(rest, tokens). length rest)"
    by simp
qed

declare split_tokens.simps [simp del]

text \<open>The state of the token loop: the target and the three \<open>..._specified\<close> flags.\<close>

record parse_state =
  t :: Target
  os_specified :: bool
  arch_specified :: bool
  bits_specified :: bool

text \<open>
  The \<open>if\<close>/\<open>else if\<close> chain of one iteration: the updated target with
  \<open>(is_arch, is_os, is_bits)\<close>, or the fatal error of the last branch.
\<close>

definition match_token ::
  "string \<Rightarrow> string \<Rightarrow> Target \<Rightarrow> error + (Target \<times> bool \<times> bool \<times> bool)" where
  "match_token target tok tg =
     (if tok = ''x86'' then Inr (tg\<lparr>arch := X86\<rparr>, True, False, False)
      else if tok = ''arm'' then Inr (tg\<lparr>arch := ARM\<rparr>, True, False, False)
      else if tok = ''32'' then Inr (tg\<lparr>bits := 32\<rparr>, False, False, True)
      else if tok = ''64'' then Inr (tg\<lparr>bits := 64\<rparr>, False, False, True)
      else if tok = ''linux'' then Inr (tg\<lparr>os := Linux\<rparr>, False, True, False)
      else if tok = ''windows'' then Inr (tg\<lparr>os := Windows\<rparr>, False, True, False)
      else if tok = ''nacl'' then Inr (tg\<lparr>os := NaCl\<rparr>, False, True, False)
      else if tok = ''osx'' then Inr (tg\<lparr>os := OSX\<rparr>, False, True, False)
      else if tok = ''android'' then Inr (tg\<lparr>os := Android\<rparr>, False, True, False)
      else if tok = ''ios'' then Inr (tg\<lparr>os := IOS\<rparr>, False, True, False)
      else if tok = ''sse41'' then
        Inr (tg\<lparr>features := features tg OR SSE41\<rparr>, False, False, False)
      else if tok = ''avx'' then
        Inr (tg\<lparr>features := features tg OR (SSE41 OR AVX)\<rparr>, False, False, False)
      else if tok = ''avx2'' then
        Inr (tg\<lparr>features := features tg OR (SSE41 OR AVX OR AVX2)\<rparr>, False, False, False)
      else if tok = ''cuda'' \<or> tok = ''ptx'' then
        Inr (tg\<lparr>features := features tg OR CUDA\<rparr>, False, False, False)
      else if tok = ''opencl'' then
        Inr (tg\<lparr>features := features tg OR OpenCL\<rparr>, False, False, False)
      else if tok = ''gpu_debug'' then
        Inr (tg\<lparr>features := features tg OR GPUDebug\<rparr>, False, False, False)
      else Inl (Did_Not_Understand target))"

text \<open>One iteration of the token loop: the chain, then the three duplicate checks.\<close>

definition token_step :: "string \<Rightarrow> string \<Rightarrow> parse_state \<Rightarrow> error + parse_state" where
  "token_step target tok s =
     (case match_token target tok (t s) of
        Inl e \<Rightarrow> Inl e
      | Inr (tg, is_arch, is_os, is_bits) \<Rightarrow>
          if is_os \<and> os_specified s then Inl OS_Twice
          else if is_arch \<and> arch_specified s then Inl Arch_Twice
          else if is_bits \<and> bits_specified s then Inl Bits_Twice
          else Inr \<lparr>t = tg,
                   os_specified = (os_specified s \<or> is_os),
                   arch_specified = (arch_specified s \<or> is_arch),
                   bits_specified = (bits_specified s \<or> is_bits)\<rparr>)"

fun token_loop :: "string \<Rightarrow> string list \<Rightarrow> parse_state \<Rightarrow> error + parse_state" where
  "token_loop target [] s = Inr s"
| "token_loop target (tok # tokens) s =
     (case token_step target tok s of
        Inl e \<Rightarrow> Inl e
      | Inr s' \<Rightarrow> token_loop target tokens s')"

text \<open>
  The part of \<open>get_target_from_environment\<close> that runs when the variable is set, from
  \<open>t.features = 0\<close> to \<open>return t\<close>, on the host target \<open>base\<close> and the value
  \<open>target\<close> of the variable.
\<close>

definition parse_target :: "Target \<Rightarrow> string \<Rightarrow> error + Target" where
  "parse_target base target =
     (let tg = base\<lparr>features := 0\<rparr>;
          tokens = split_tokens target []
      in case token_loop target tokens
                \<lparr>t = tg, os_specified = False, arch_specified = False,
                 bits_specified = False\<rparr> of
           Inl e \<Rightarrow> Inl e
         | Inr s \<Rightarrow> Inr (t s))"

text \<open>
  The whole function, with \<open>getenv("HL_TARGET")\<close> as the parameter \<open>HL_TARGET\<close>
  (\<open>None\<close> for the null pointer). The host is detected first, so its failure comes first.
\<close>

definition get_target_from_environment ::
  "build \<Rightarrow> cpuid \<Rightarrow> string option \<Rightarrow> error + Target" where
  "get_target_from_environment b cpu HL_TARGET =
     (case get_host_target b cpu of
        Inl e \<Rightarrow> Inl e
      | Inr tg \<Rightarrow>
          (case HL_TARGET of
             None \<Rightarrow> Inr tg
           | Some target \<Rightarrow> parse_target tg target))"

section \<open>The initial module\<close>

text \<open>
  The components declared with \<open>DECLARE_CPP_INITMOD\<close>, each of which exists in a 32-bit
  and a 64-bit build, and those declared with \<open>DECLARE_LL_INITMOD\<close>.
\<close>

datatype cpp_component =
    android_clock | android_host_cpu_count | android_io | ios_io | cuda | cuda_debug
  | fake_thread_pool | gcd_thread_pool | linux_clock | linux_host_cpu_count | nogpu
  | opencl | opencl_debug | osx_host_cpu_count | osx_io | posix_allocator | posix_clock
  | posix_error_handler | posix_io | posix_math | posix_thread_pool | tracing
  | write_debug_image

datatype ll_component = arm_ll | posix_math_ll | ptx_dev_ll | x86_avx_ll | x86_ll | x86_sse41_ll

text \<open>One embedded bitcode module: \<open>mod_32\<close>, \<open>mod_64\<close> or \<open>mod_ll\<close>.\<close>

datatype initmod = Initmod_32 cpp_component | Initmod_64 cpp_component | Initmod_ll ll_component

text \<open>\<open>get_initmod_mod(context, bits_64)\<close> as \<open>DECLARE_CPP_INITMOD\<close> defines it.\<close>

definition get_initmod :: "cpp_component \<Rightarrow> bool \<Rightarrow> initmod" where
  "get_initmod m bits_64 = (if bits_64 then Initmod_64 m else Initmod_32 m)"

text \<open>The vector \<open>modules\<close> when the link loop is reached, in the order of the pushes.\<close>

definition os_modules :: "Target \<Rightarrow> bool \<Rightarrow> initmod list" where
  "os_modules tg bits_64 =
     (if os tg = Linux then
        [get_initmod linux_clock bits_64, get_initmod posix_io bits_64,
         get_initmod linux_host_cpu_count bits_64, get_initmod posix_thread_pool bits_64]
      else if os tg = OSX then
        [get_initmod posix_clock bits_64, get_initmod osx_io bits_64,
         get_initmod gcd_thread_pool bits_64]
      else if os tg = Android then
        [get_initmod android_clock bits_64, get_initmod android_io bits_64,
         get_initmod android_host_cpu_count bits_64, get_initmod posix_thread_pool bits_64]
      else if os tg = Windows then
        [get_initmod posix_clock bits_64, get_initmod posix_io bits_64,
         get_initmod fake_thread_pool bits_64]
      else if os tg = IOS then
        [get_initmod posix_clock bits_64, get_initmod ios_io bits_64,
         get_initmod gcd_thread_pool bits_64]
      else if os tg = NaCl then
        [get_initmod posix_clock bits_64, get_initmod posix_io bits_64,
         get_initmod linux_host_cpu_count bits_64, get_initmod posix_thread_pool bits_64]
      else [])"

definition always_modules :: "bool \<Rightarrow> initmod list" where
  "always_modules bits_64 =
     [get_initmod posix_math bits_64, Initmod_ll posix_math_ll,
      get_initmod tracing bits_64, get_initmod write_debug_image bits_64,
      get_initmod posix_allocator bits_64, get_initmod posix_error_handler bits_64]"

definition optional_modules :: "Target \<Rightarrow> bool \<Rightarrow> initmod list" where
  "optional_modules tg bits_64 =
     (if arch tg = X86 then [Initmod_ll x86_ll] else []) @
     (if has_feature (features tg) SSE41 then [Initmod_ll x86_sse41_ll] else []) @
     (if has_feature (features tg) AVX then [Initmod_ll x86_avx_ll] else []) @
     (if has_feature (features tg) CUDA then
        (if has_feature (features tg) GPUDebug then [get_initmod cuda_debug bits_64]
         else [get_initmod cuda bits_64])
      else if has_feature (features tg) OpenCL then
        (if has_feature (features tg) GPUDebug then [get_initmod opencl_debug bits_64]
         else [get_initmod opencl bits_64])
      else [get_initmod nogpu bits_64])"

text \<open>The assertion on \<open>t.bits\<close> and the pushes that follow it.\<close>

definition selected_modules :: "Target \<Rightarrow> error + initmod list" where
  "selected_modules tg =
     (if \<not> (bits tg = 32 \<or> bits tg = 64) then Inl Bad_Bits
      else
        let bits_64 = (bits tg = 64)
        in Inr (os_modules tg bits_64 @ always_modules bits_64 @ optional_modules tg bits_64))"

text \<open>
  \<open>llvm::Linker::LinkModules(dest, src, DestroySource, &err_msg)\<close> is a parameter: it
  gives \<open>Inl err_msg\<close> when it reports failure and \<open>Inr dest'\<close>, the destination after
  the merge, otherwise. The loop links \<open>modules[1]\<close>, \<open>modules[2]\<close>, ... into
  \<open>modules[0]\<close> and stops at the first failure.
\<close>

type_synonym 'm linker = "'m \<Rightarrow> 'm \<Rightarrow> string + 'm"

fun link_loop :: "'m linker \<Rightarrow> 'm \<Rightarrow> 'm list \<Rightarrow> error + 'm" where
  "link_loop LinkModules m0 [] = Inr m0"
| "link_loop LinkModules m0 (m # ms) =
     (case LinkModules m0 m of
        Inl err_msg \<Rightarrow> Inl (Link_Failure err_msg)
      | Inr m0' \<Rightarrow> link_loop LinkModules m0' ms)"

text \<open>
  \<open>parse\<close> stands for the bitcode parser applied to the embedded arrays
  (\<open>DECLARE_INITMOD\<close>). Reading \<open>modules[0]\<close> of an empty vector has no defined
  behaviour in C++; the six pushes that always happen keep the vector non-empty.
\<close>

definition get_initial_module_for_target ::
  "'m linker \<Rightarrow> (initmod \<Rightarrow> 'm) \<Rightarrow> Target \<Rightarrow> error + 'm" where
  "get_initial_module_for_target LinkModules parse tg =
     (case selected_modules tg of
        Inl e \<Rightarrow> Inl e
      | Inr modules \<Rightarrow>
          (case map parse modules of
             [] \<Rightarrow> Inl No_Modules
           | m0 # ms \<Rightarrow> link_loop LinkModules m0 ms))"

section \<open>Vocabulary of the claims\<close>

text \<open>The token table of the chain in \<open>match_token\<close>, by category.\<close>

definition arch_token :: "string \<Rightarrow> bool" where
  "arch_token tok = (tok = ''x86'' \<or> tok = ''arm'')"

definition bits_token :: "string \<Rightarrow> bool" where
  "bits_token tok = (tok = ''32'' \<or> tok = ''64'')"

definition os_token :: "string \<Rightarrow> bool" where
  "os_token tok =
     (tok = ''linux'' \<or> tok = ''windows'' \<or> tok = ''nacl'' \<or> tok = ''osx''
      \<or> tok = ''android'' \<or> tok = ''ios'')"

definition feature_token :: "string \<Rightarrow> bool" where
  "feature_token tok =
     (tok = ''sse41'' \<or> tok = ''avx'' \<or> tok = ''avx2'' \<or> tok = ''cuda'' \<or> tok = ''ptx''
      \<or> tok = ''opencl'' \<or> tok = ''gpu_debug'')"

definition recognized :: "string \<Rightarrow> bool" where
  "recognized tok = (arch_token tok \<or> bits_token tok \<or> os_token tok \<or> feature_token tok)"

text \<open>No category (OS, architecture, bits) has two tokens in the list.\<close>

definition no_repeat :: "string list \<Rightarrow> bool" where
  "no_repeat tokens =
     (length (filter os_token tokens) \<le> 1
      \<and> length (filter arch_token tokens) \<le> 1
      \<and> length (filter bits_token tokens) \<le> 1)"

text \<open>The tokens of an override string, as the splitting loop produces them.\<close>

definition tokens_of :: "string \<Rightarrow> string list" where
  "tokens_of target = split_tokens target []"

text \<open>
  The state in which the token loop starts, and the condition under which a list of
  tokens brings no category to a second token, given the flags already set.
\<close>

definition fits :: "parse_state \<Rightarrow> string list \<Rightarrow> bool" where
  "fits s tokens =
     ((if os_specified s then 1 else 0) + length (filter os_token tokens) \<le> (1::nat)
      \<and> (if arch_specified s then 1 else 0) + length (filter arch_token tokens) \<le> (1::nat)
      \<and> (if bits_specified s then 1 else 0) + length (filter bits_token tokens) \<le> (1::nat))"

definition start :: "Target \<Rightarrow> parse_state" where
  "start tg = \<lparr>t = tg, os_specified = False, arch_specified = False, bits_specified = False\<rparr>"

text \<open>The accelerator modules: CUDA, OpenCL (each plain or debug) and the no-GPU one.\<close>

definition accelerator_component :: "cpp_component \<Rightarrow> bool" where
  "accelerator_component m =
     (m = cuda \<or> m = cuda_debug \<or> m = opencl \<or> m = opencl_debug \<or> m = nogpu)"

fun accelerator :: "initmod \<Rightarrow> bool" where
  "accelerator (Initmod_32 m) = accelerator_component m"
| "accelerator (Initmod_64 m) = accelerator_component m"
| "accelerator (Initmod_ll m) = False"

section \<open>Host detection: the processor queries\<close>

lemma test_bit_iff: "test_bit w n = bit w n"
  by (simp add: test_bit_def and_exp_eq_0_iff_not_bit)

text \<open>
  C1 (the code departs from the claim). The claim: on a 64-bit x86 host whose first query
  reports AVX, half-float and hardware-random support, AVX2 is read from bit 5 of register C
  of the second query (leaf 7, sub-leaf 0). The code issues the second query into
  \<open>info2\<close> and then tests \<open>info[2]\<close>, register C of the first query. On the first
  host below the first query has bits 5, 28, 29 and 30 of register C set and the second
  query returns zeros: AVX2 is reported. On the second host bit 5 is clear in the first
  query and set in the second: AVX2 is not reported.
\<close>

theorem get_host_target_avx2_reads_first_query:
  "get_host_target
     \<lparr>def_linux = True, def_MSC_VER = False, def_APPLE = False, def_arm = False,
      size_t_is_8 = True\<rparr>
     (\<lambda>leaf sub.
        if leaf = 1 then \<lparr>info_0 = 0, info_1 = 0, info_2 = 0x70000020, info_3 = 0x04000000\<rparr>
        else \<lparr>info_0 = 0, info_1 = 0, info_2 = 0, info_3 = 0\<rparr>)
   = Inr \<lparr>os = Linux, arch = X86, bits = 64, features = AVX OR AVX2\<rparr>
   \<and> get_host_target
     \<lparr>def_linux = True, def_MSC_VER = False, def_APPLE = False, def_arm = False,
      size_t_is_8 = True\<rparr>
     (\<lambda>leaf sub.
        if leaf = 1 then \<lparr>info_0 = 0, info_1 = 0, info_2 = 0x70000000, info_3 = 0x04000000\<rparr>
        else \<lparr>info_0 = 0, info_1 = 0, info_2 = 0x20, info_3 = 0\<rparr>)
   = Inr \<lparr>os = Linux, arch = X86, bits = 64, features = AVX\<rparr>
   \<and> has_feature (AVX OR AVX2) AVX2 \<and> \<not> has_feature AVX AVX2
   \<and> \<not> bit (0 :: 32 word) 5 \<and> bit (0x20 :: 32 word) 5"
  by (simp add: get_host_target_def host_os_def test_bit_def has_feature_def
      AVX_def AVX2_def)

text \<open>
  C9. On x86 (the macro \<open>__arm__\<close> is not defined), when bit 26 of register D of the
  first query (leaf 1) is clear, \<open>get_host_target\<close> ends in the failed assertion
  "The x86 backend assumes at least sse2 support" and returns no Target, whatever the
  other registers hold.
\<close>

theorem get_host_target_no_sse2:
  "\<not> def_arm b \<Longrightarrow> \<not> bit (info_3 (cpu 1 0)) 26 \<Longrightarrow>
   get_host_target b cpu = Inl No_SSE2
   \<and> assert_message No_SSE2 = ''The x86 backend assumes at least sse2 support''"
  by (simp add: get_host_target_def test_bit_iff Let_def)

theorem get_host_target_no_sse2_witness:
  "\<not> def_arm \<lparr>def_linux = True, def_MSC_VER = False, def_APPLE = False, def_arm = False,
              size_t_is_8 = True\<rparr>
   \<and> \<not> bit (info_3 \<lparr>info_0 = 0, info_1 = 0, info_2 = 0x70080000, info_3 = 0\<rparr>) 26
   \<and> get_host_target
       \<lparr>def_linux = True, def_MSC_VER = False, def_APPLE = False, def_arm = False,
        size_t_is_8 = True\<rparr>
       (\<lambda>leaf sub. \<lparr>info_0 = 0, info_1 = 0, info_2 = 0x70080000, info_3 = 0\<rparr>)
     = Inl No_SSE2"
  using get_host_target_no_sse2
    [of "\<lparr>def_linux = True, def_MSC_VER = False, def_APPLE = False, def_arm = False,
          size_t_is_8 = True\<rparr>"
        "\<lambda>leaf sub. \<lparr>info_0 = 0, info_1 = 0, info_2 = 0x70080000, info_3 = 0\<rparr>"]
  by simp

section \<open>The override string: feature tokens\<close>

text \<open>
  C3. For every base target, the override string "avx2" gives the base with its feature
  word replaced by exactly SSE41, AVX and AVX2: the features of the base are cleared first,
  and none of CUDA, OpenCL and GPUDebug is set.
\<close>

theorem parse_target_avx2:
  "parse_target base ''avx2'' = Inr (base\<lparr>features := SSE41 OR AVX OR AVX2\<rparr>)
   \<and> has_feature (SSE41 OR AVX OR AVX2) SSE41
   \<and> has_feature (SSE41 OR AVX OR AVX2) AVX
   \<and> has_feature (SSE41 OR AVX OR AVX2) AVX2
   \<and> \<not> has_feature (SSE41 OR AVX OR AVX2) CUDA
   \<and> \<not> has_feature (SSE41 OR AVX OR AVX2) OpenCL
   \<and> \<not> has_feature (SSE41 OR AVX OR AVX2) GPUDebug"
  by (simp add: parse_target_def split_tokens.simps token_step_def match_token_def
      has_feature_def SSE41_def AVX_def AVX2_def CUDA_def OpenCL_def GPUDebug_def)

text \<open>
  C7. For every base target, "sse41-avx" and "avx" give the same result, the base with the
  feature word SSE41 | AVX: naming the implied flag again is no error and changes nothing.
\<close>

theorem parse_target_sse41_avx:
  "parse_target base ''sse41-avx'' = parse_target base ''avx''
   \<and> parse_target base ''avx'' = Inr (base\<lparr>features := SSE41 OR AVX\<rparr>)"
  by (simp add: parse_target_def split_tokens.simps token_step_def match_token_def
      SSE41_def AVX_def)

section \<open>The splitting loop\<close>

lemma split_tokens_acc: "split_tokens rest tokens = tokens @ split_tokens rest []"
proof (induction "length rest" arbitrary: rest tokens rule: less_induct)
  case less
  show ?case
  proof (cases "find_char CHR ''-'' rest")
    case None
    then show ?thesis by (simp add: split_tokens.simps)
  next
    case (Some i)
    have lt: "find_char c s = Some k \<Longrightarrow> k < length s" for c s k
      by (induction s arbitrary: k) (auto split: if_splits)
    have shorter: "length (drop (i + 1) rest) < length rest"
      using lt [OF Some] by simp
    have "split_tokens rest tokens = split_tokens (drop (i + 1) rest) (tokens @ [take i rest])"
      using Some by (subst split_tokens.simps) simp
    also have "\<dots> = (tokens @ [take i rest]) @ split_tokens (drop (i + 1) rest) []"
      by (rule less [OF shorter])
    also have "\<dots> = tokens @ split_tokens (drop (i + 1) rest) ([] @ [take i rest])"
      using less [OF shorter, of "[] @ [take i rest]"] by simp
    also have "\<dots> = tokens @ split_tokens rest []"
      using Some by (subst (2) split_tokens.simps) simp
    finally show ?thesis .
  qed
qed

lemma tokens_of_Nil: "tokens_of [] = [[]]"
  by (simp add: tokens_of_def split_tokens.simps)

lemma tokens_of_dash: "tokens_of (CHR ''-'' # s) = [] # tokens_of s"
  unfolding tokens_of_def
  by (subst split_tokens.simps, simp, subst split_tokens_acc, simp)

lemma tokens_of_ne: "tokens_of s \<noteq> []"
  unfolding tokens_of_def
  by (subst split_tokens.simps, subst split_tokens_acc) (simp split: option.splits)

lemma tokens_of_other:
  assumes "c \<noteq> CHR ''-''"
  shows "tokens_of (c # s) = (c # hd (tokens_of s)) # tl (tokens_of s)"
proof (cases "find_char CHR ''-'' s")
  case None
  then show ?thesis using assms by (simp add: tokens_of_def split_tokens.simps)
next
  case (Some i)
  have "tokens_of (c # s) = split_tokens (drop (i + 1) s) [c # take i s]"
    unfolding tokens_of_def using Some assms by (subst split_tokens.simps) simp
  also have "\<dots> = (c # take i s) # split_tokens (drop (i + 1) s) []"
    by (subst split_tokens_acc) simp
  finally have l: "tokens_of (c # s) = (c # take i s) # split_tokens (drop (i + 1) s) []" .
  have "tokens_of s = split_tokens (drop (i + 1) s) [take i s]"
    unfolding tokens_of_def using Some by (subst split_tokens.simps) simp
  also have "\<dots> = take i s # split_tokens (drop (i + 1) s) []"
    by (subst split_tokens_acc) simp
  finally show ?thesis using l by simp
qed

lemma tl_tokens_of_Cons:
  "[] \<in> set (tl (tokens_of s)) \<Longrightarrow> [] \<in> set (tl (tokens_of (c # s)))"
proof (cases "c = CHR ''-''")
  case True
  assume "[] \<in> set (tl (tokens_of s))"
  then have "[] \<in> set (tokens_of s)"
    by (cases "tokens_of s") auto
  then show ?thesis using True by (simp add: tokens_of_dash)
next
  case False
  assume "[] \<in> set (tl (tokens_of s))"
  then show ?thesis using False by (simp add: tokens_of_other)
qed

lemma empty_token_double_dash: "[] \<in> set (tl (tokens_of (a @ ''--'' @ b)))"
proof (induction a)
  case Nil
  show ?case by (simp add: tokens_of_dash)
next
  case (Cons c a)
  then show ?case using tl_tokens_of_Cons [of "a @ ''--'' @ b" c] by simp
qed

lemma empty_token_trailing_dash: "[] \<in> set (tl (tokens_of (a @ ''-'')))"
proof (induction a)
  case Nil
  show ?case by (simp add: tokens_of_dash tokens_of_Nil)
next
  case (Cons c a)
  then show ?case using tl_tokens_of_Cons [of "a @ ''-''" c] by simp
qed

lemma empty_token:
  assumes "sublist ''--'' target \<or> suffix ''-'' target"
  shows "[] \<in> set (tokens_of target)"
proof -
  have "[] \<in> set (tl (tokens_of target))"
    using assms empty_token_double_dash empty_token_trailing_dash
    by (auto simp: sublist_def suffix_def)
  then show ?thesis by (cases "tokens_of target") auto
qed

section \<open>One token\<close>

lemma not_recognized_empty: "\<not> recognized []"
  by (simp add: recognized_def arch_token_def bits_token_def os_token_def feature_token_def)

lemma not_recognized_host: "\<not> recognized ''host''"
  by (simp add: recognized_def arch_token_def bits_token_def os_token_def feature_token_def)

lemma token_step_unrecognized:
  "\<not> recognized tok \<Longrightarrow> token_step target tok s = Inl (Did_Not_Understand target)"
  by (simp add: recognized_def arch_token_def bits_token_def os_token_def feature_token_def
      token_step_def match_token_def)

lemma token_step_os:
  "os_token tok \<Longrightarrow>
   (case token_step target tok s of
      Inl e \<Rightarrow> e = OS_Twice \<and> os_specified s
    | Inr s' \<Rightarrow> \<not> os_specified s \<and> os_specified s'
        \<and> arch_specified s' = arch_specified s \<and> bits_specified s' = bits_specified s)"
  unfolding os_token_def
  by (elim disjE) (simp_all add: token_step_def match_token_def)

lemma token_step_arch:
  "arch_token tok \<Longrightarrow>
   (case token_step target tok s of
      Inl e \<Rightarrow> e = Arch_Twice \<and> arch_specified s
    | Inr s' \<Rightarrow> \<not> arch_specified s \<and> arch_specified s'
        \<and> os_specified s' = os_specified s \<and> bits_specified s' = bits_specified s)"
  unfolding arch_token_def
  by (elim disjE) (simp_all add: token_step_def match_token_def)

lemma token_step_bits:
  "bits_token tok \<Longrightarrow>
   (case token_step target tok s of
      Inl e \<Rightarrow> e = Bits_Twice \<and> bits_specified s
    | Inr s' \<Rightarrow> \<not> bits_specified s \<and> bits_specified s'
        \<and> os_specified s' = os_specified s \<and> arch_specified s' = arch_specified s)"
  unfolding bits_token_def
  by (elim disjE) (simp_all add: token_step_def match_token_def)

lemma token_step_feature:
  "feature_token tok \<Longrightarrow>
   (case token_step target tok s of
      Inl e \<Rightarrow> False
    | Inr s' \<Rightarrow> os_specified s' = os_specified s
        \<and> arch_specified s' = arch_specified s \<and> bits_specified s' = bits_specified s)"
  unfolding feature_token_def
  by (elim disjE) (simp_all add: token_step_def match_token_def)

lemma os_token_only: "os_token tok \<Longrightarrow> \<not> arch_token tok \<and> \<not> bits_token tok"
  unfolding os_token_def arch_token_def bits_token_def
  by (elim disjE) simp_all

lemma arch_token_only: "arch_token tok \<Longrightarrow> \<not> os_token tok \<and> \<not> bits_token tok"
  unfolding os_token_def arch_token_def bits_token_def
  by (elim disjE) simp_all

lemma bits_token_only: "bits_token tok \<Longrightarrow> \<not> os_token tok \<and> \<not> arch_token tok"
  unfolding os_token_def arch_token_def bits_token_def
  by (elim disjE) simp_all

lemma feature_token_only:
  "feature_token tok \<Longrightarrow> \<not> os_token tok \<and> \<not> arch_token tok \<and> \<not> bits_token tok"
  unfolding os_token_def arch_token_def bits_token_def feature_token_def
  by (elim disjE) simp_all

section \<open>The token loop\<close>

lemma fits_start: "fits (start tg) tokens = no_repeat tokens"
  by (simp add: fits_def start_def no_repeat_def)

lemma token_step_recognized:
  assumes "recognized tok"
  shows "case token_step target tok s of
           Inl e \<Rightarrow> \<not> fits s [tok]
             \<and> (e = OS_Twice \<and> os_token tok \<and> os_specified s
                \<or> e = Arch_Twice \<and> arch_token tok \<and> arch_specified s
                \<or> e = Bits_Twice \<and> bits_token tok \<and> bits_specified s)
         | Inr s' \<Rightarrow> fits s [tok]
             \<and> os_specified s' = (os_specified s \<or> os_token tok)
             \<and> arch_specified s' = (arch_specified s \<or> arch_token tok)
             \<and> bits_specified s' = (bits_specified s \<or> bits_token tok)"
proof -
  consider "os_token tok" | "arch_token tok" | "bits_token tok" | "feature_token tok"
    using assms by (auto simp: recognized_def)
  then show ?thesis
  proof cases
    case 1
    with token_step_os [OF 1, where target = target and s = s] os_token_only [OF 1] show ?thesis
      by (simp add: fits_def split: sum.splits)
  next
    case 2
    with token_step_arch [OF 2, where target = target and s = s] arch_token_only [OF 2] show ?thesis
      by (simp add: fits_def split: sum.splits)
  next
    case 3
    with token_step_bits [OF 3, where target = target and s = s] bits_token_only [OF 3] show ?thesis
      by (simp add: fits_def split: sum.splits)
  next
    case 4
    with token_step_feature [OF 4, where target = target and s = s] feature_token_only [OF 4] show ?thesis
      by (simp add: fits_def split: sum.splits)
  qed
qed

lemma fits_Cons:
  assumes "fits s [tok]"
    and "os_specified s' = (os_specified s \<or> os_token tok)"
    and "arch_specified s' = (arch_specified s \<or> arch_token tok)"
    and "bits_specified s' = (bits_specified s \<or> bits_token tok)"
  shows "fits s (tok # tokens) = fits s' tokens"
  using assms by (simp add: fits_def split: if_splits)

lemma not_fits_Cons: "\<not> fits s [tok] \<Longrightarrow> \<not> fits s (tok # tokens)"
  by (simp add: fits_def split: if_splits)

lemma token_loop_recognized:
  "list_all recognized tokens \<Longrightarrow>
   (case token_loop target tokens s of
      Inl e \<Rightarrow> \<not> fits s tokens \<and> (e = OS_Twice \<or> e = Arch_Twice \<or> e = Bits_Twice)
    | Inr s' \<Rightarrow> fits s tokens)"
proof (induction tokens arbitrary: s)
  case Nil
  show ?case by (simp add: fits_def)
next
  case (Cons tok tokens)
  from Cons.prems have rec: "recognized tok" and rest: "list_all recognized tokens"
    by simp_all
  show ?case
  proof (cases "token_step target tok s")
    case (Inl e)
    with token_step_recognized [OF rec, where target = target and s = s] show ?thesis
      by (auto simp: not_fits_Cons)
  next
    case (Inr s1)
    with token_step_recognized [OF rec, where target = target and s = s]
    have eq: "fits s (tok # tokens) = fits s1 tokens"
      by (intro fits_Cons) simp_all
    from Cons.IH [OF rest, of s1] Inr show ?thesis
      by (simp add: eq split: sum.splits)
  qed
qed

lemma token_loop_append:
  "token_loop target (pre @ post) s =
     (case token_loop target pre s of
        Inl e \<Rightarrow> Inl e
      | Inr s' \<Rightarrow> token_loop target post s')"
  by (induction pre arbitrary: s) (simp_all split: sum.splits)

lemma token_loop_OS_Twice:
  "token_loop target tokens s = Inl OS_Twice \<Longrightarrow>
   2 \<le> (if os_specified s then 1 else 0) + length (filter os_token tokens)"
proof (induction tokens arbitrary: s)
  case Nil
  then show ?case by simp
next
  case (Cons tok tokens)
  show ?case
  proof (cases "recognized tok")
    case False
    with Cons.prems show ?thesis by (simp add: token_step_unrecognized)
  next
    case True
    show ?thesis
    proof (cases "token_step target tok s")
      case (Inl e)
      with Cons.prems token_step_recognized [OF True, where target = target and s = s] show ?thesis
        by auto
    next
      case (Inr s1)
      with Cons.prems have "token_loop target tokens s1 = Inl OS_Twice" by simp
      from Cons.IH [OF this] Inr token_step_recognized [OF True, where target = target and s = s]
      show ?thesis by (auto split: if_splits)
    qed
  qed
qed

lemma token_loop_Arch_Twice:
  "token_loop target tokens s = Inl Arch_Twice \<Longrightarrow>
   2 \<le> (if arch_specified s then 1 else 0) + length (filter arch_token tokens)"
proof (induction tokens arbitrary: s)
  case Nil
  then show ?case by simp
next
  case (Cons tok tokens)
  show ?case
  proof (cases "recognized tok")
    case False
    with Cons.prems show ?thesis by (simp add: token_step_unrecognized)
  next
    case True
    show ?thesis
    proof (cases "token_step target tok s")
      case (Inl e)
      with Cons.prems token_step_recognized [OF True, where target = target and s = s] show ?thesis
        by auto
    next
      case (Inr s1)
      with Cons.prems have "token_loop target tokens s1 = Inl Arch_Twice" by simp
      from Cons.IH [OF this] Inr token_step_recognized [OF True, where target = target and s = s]
      show ?thesis by (auto split: if_splits)
    qed
  qed
qed

lemma token_loop_Bits_Twice:
  "token_loop target tokens s = Inl Bits_Twice \<Longrightarrow>
   2 \<le> (if bits_specified s then 1 else 0) + length (filter bits_token tokens)"
proof (induction tokens arbitrary: s)
  case Nil
  then show ?case by simp
next
  case (Cons tok tokens)
  show ?case
  proof (cases "recognized tok")
    case False
    with Cons.prems show ?thesis by (simp add: token_step_unrecognized)
  next
    case True
    show ?thesis
    proof (cases "token_step target tok s")
      case (Inl e)
      with Cons.prems token_step_recognized [OF True, where target = target and s = s] show ?thesis
        by auto
    next
      case (Inr s1)
      with Cons.prems have "token_loop target tokens s1 = Inl Bits_Twice" by simp
      from Cons.IH [OF this] Inr token_step_recognized [OF True, where target = target and s = s]
      show ?thesis by (auto split: if_splits)
    qed
  qed
qed

lemma token_loop_first_repeat:
  "list_all recognized tokens \<Longrightarrow> token_loop target tokens s = Inl e \<Longrightarrow>
   \<exists>pre dup rest. tokens = pre @ dup # rest \<and> fits s pre
     \<and> (e = OS_Twice \<and> os_token dup \<and> (os_specified s \<or> filter os_token pre \<noteq> [])
        \<or> e = Arch_Twice \<and> arch_token dup \<and> (arch_specified s \<or> filter arch_token pre \<noteq> [])
        \<or> e = Bits_Twice \<and> bits_token dup \<and> (bits_specified s \<or> filter bits_token pre \<noteq> []))"
proof (induction tokens arbitrary: s)
  case Nil
  then show ?case by simp
next
  case (Cons tok tokens)
  from Cons.prems have rec: "recognized tok" and others: "list_all recognized tokens"
    by simp_all
  note step = token_step_recognized [OF rec, where target = target and s = s]
  show ?case
  proof (cases "token_step target tok s")
    case (Inl e')
    with Cons.prems have "e' = e" by simp
    with step Inl have
      "e = OS_Twice \<and> os_token tok \<and> os_specified s
       \<or> e = Arch_Twice \<and> arch_token tok \<and> arch_specified s
       \<or> e = Bits_Twice \<and> bits_token tok \<and> bits_specified s"
      by simp
    moreover from token_loop_recognized [where tokens = "[]" and target = target and s = s]
    have "fits s []" by simp
    ultimately have "tok # tokens = [] @ tok # tokens \<and> fits s []
     \<and> (e = OS_Twice \<and> os_token tok \<and> (os_specified s \<or> filter os_token [] \<noteq> [])
        \<or> e = Arch_Twice \<and> arch_token tok \<and> (arch_specified s \<or> filter arch_token [] \<noteq> [])
        \<or> e = Bits_Twice \<and> bits_token tok \<and> (bits_specified s \<or> filter bits_token [] \<noteq> []))"
      by auto
    then show ?thesis by blast
  next
    case (Inr s1)
    with step have one: "fits s [tok]"
      and os1: "os_specified s1 = (os_specified s \<or> os_token tok)"
      and arch1: "arch_specified s1 = (arch_specified s \<or> arch_token tok)"
      and bits1: "bits_specified s1 = (bits_specified s \<or> bits_token tok)"
      by simp_all
    from Cons.prems Inr have "token_loop target tokens s1 = Inl e" by simp
    from Cons.IH [OF others this]
    obtain pre dup rest where split: "tokens = pre @ dup # rest" and ok: "fits s1 pre"
      and which: "e = OS_Twice \<and> os_token dup \<and> (os_specified s1 \<or> filter os_token pre \<noteq> [])
        \<or> e = Arch_Twice \<and> arch_token dup \<and> (arch_specified s1 \<or> filter arch_token pre \<noteq> [])
        \<or> e = Bits_Twice \<and> bits_token dup \<and> (bits_specified s1 \<or> filter bits_token pre \<noteq> [])"
      by blast
    have "fits s (tok # pre)"
      using fits_Cons [OF one os1 arch1 bits1, of pre] ok by simp
    moreover have "tok # tokens = (tok # pre) @ dup # rest"
      using split by simp
    moreover have "e = OS_Twice \<and> os_token dup
          \<and> (os_specified s \<or> filter os_token (tok # pre) \<noteq> [])
        \<or> e = Arch_Twice \<and> arch_token dup
          \<and> (arch_specified s \<or> filter arch_token (tok # pre) \<noteq> [])
        \<or> e = Bits_Twice \<and> bits_token dup
          \<and> (bits_specified s \<or> filter bits_token (tok # pre) \<noteq> [])"
      using which os1 arch1 bits1 by auto
    ultimately show ?thesis by blast
  qed
qed

section \<open>The first failure of a parse\<close>

lemma parse_target_alt:
  "parse_target base target =
     (case token_loop target (tokens_of target) (start (base\<lparr>features := 0\<rparr>)) of
        Inl e \<Rightarrow> Inl e
      | Inr s \<Rightarrow> Inr (t s))"
  by (simp add: parse_target_def tokens_of_def start_def)

lemma token_loop_first_unrecognized:
  assumes "\<not> list_all recognized tokens"
  shows "\<exists>e. token_loop target tokens (start tg) = Inl e
           \<and> (if no_repeat (takeWhile recognized tokens) then e = Did_Not_Understand target
              else e = OS_Twice \<or> e = Arch_Twice \<or> e = Bits_Twice)"
proof -
  define pre where "pre = takeWhile recognized tokens"
  define post where "post = dropWhile recognized tokens"
  have split: "tokens = pre @ post"
    by (simp add: pre_def post_def)
  have pre_ok: "list_all recognized pre"
    unfolding pre_def list_all_iff by (auto dest: set_takeWhileD)
  have "post \<noteq> []"
    using assms unfolding post_def list_all_iff by simp
  then obtain tok rest where post: "post = tok # rest"
    by (cases post) auto
  have bad: "\<not> recognized tok"
    using hd_dropWhile [of recognized tokens] post unfolding post_def by auto
  show ?thesis
  proof (cases "token_loop target pre (start tg)")
    case (Inl e)
    with token_loop_recognized [OF pre_ok, where target = target and s = "start tg"]
    have "\<not> no_repeat pre" and "e = OS_Twice \<or> e = Arch_Twice \<or> e = Bits_Twice"
      by (simp_all add: fits_start)
    moreover have "token_loop target tokens (start tg) = Inl e"
      by (simp add: split token_loop_append Inl)
    ultimately show ?thesis by (simp add: pre_def)
  next
    case (Inr s1)
    with token_loop_recognized [OF pre_ok, where target = target and s = "start tg"]
    have "no_repeat pre" by (simp add: fits_start)
    moreover have "token_loop target tokens (start tg) = Inl (Did_Not_Understand target)"
      by (simp add: split post token_loop_append Inr token_step_unrecognized [OF bad])
    ultimately show ?thesis by (simp add: pre_def)
  qed
qed

lemma parse_target_first_unrecognized:
  assumes "\<not> list_all recognized (tokens_of target)"
  shows "\<exists>e. parse_target base target = Inl e
           \<and> (if no_repeat (takeWhile recognized (tokens_of target))
              then e = Did_Not_Understand target
              else e = OS_Twice \<or> e = Arch_Twice \<or> e = Bits_Twice)"
proof -
  from token_loop_first_unrecognized [OF assms, where target = target and tg = "base\<lparr>features := 0\<rparr>"]
  obtain e where "token_loop target (tokens_of target) (start (base\<lparr>features := 0\<rparr>)) = Inl e"
    and "if no_repeat (takeWhile recognized (tokens_of target))
         then e = Did_Not_Understand target
         else e = OS_Twice \<or> e = Arch_Twice \<or> e = Bits_Twice"
    by blast
  then show ?thesis by (simp add: parse_target_alt)
qed

lemma parse_target_twice:
  assumes "parse_target base target = Inl e"
  shows "e = OS_Twice \<Longrightarrow> 2 \<le> length (filter os_token (tokens_of target))"
    and "e = Arch_Twice \<Longrightarrow> 2 \<le> length (filter arch_token (tokens_of target))"
    and "e = Bits_Twice \<Longrightarrow> 2 \<le> length (filter bits_token (tokens_of target))"
proof -
  have loop: "token_loop target (tokens_of target) (start (base\<lparr>features := 0\<rparr>)) = Inl e"
    using assms by (simp add: parse_target_alt split: sum.splits)
  show "e = OS_Twice \<Longrightarrow> 2 \<le> length (filter os_token (tokens_of target))"
    using token_loop_OS_Twice [where target = target and tokens = "tokens_of target" and s = "start (base\<lparr>features := 0\<rparr>)"] loop
    by (simp add: start_def)
  show "e = Arch_Twice \<Longrightarrow> 2 \<le> length (filter arch_token (tokens_of target))"
    using token_loop_Arch_Twice [where target = target and tokens = "tokens_of target" and s = "start (base\<lparr>features := 0\<rparr>)"] loop
    by (simp add: start_def)
  show "e = Bits_Twice \<Longrightarrow> 2 \<le> length (filter bits_token (tokens_of target))"
    using token_loop_Bits_Twice [where target = target and tokens = "tokens_of target" and s = "start (base\<lparr>features := 0\<rparr>)"] loop
    by (simp add: start_def)
qed

lemma parse_target_all_recognized:
  assumes "list_all recognized (tokens_of target)"
  shows "case parse_target base target of
           Inl e \<Rightarrow> \<not> no_repeat (tokens_of target)
             \<and> (e = OS_Twice \<or> e = Arch_Twice \<or> e = Bits_Twice)
         | Inr tg \<Rightarrow> no_repeat (tokens_of target)"
  using token_loop_recognized [OF assms, where target = target and s = "start (base\<lparr>features := 0\<rparr>)"]
  by (simp add: parse_target_alt fits_start split: sum.splits)

lemma parse_target_repeat_first:
  assumes bad: "\<not> list_all recognized (tokens_of target)"
    and rep: "\<not> no_repeat (takeWhile recognized (tokens_of target))"
  shows "\<exists>e. parse_target base target = Inl e \<and> cerr_output e = []
     \<and> (\<exists>pre dup rest. takeWhile recognized (tokens_of target) = pre @ dup # rest
          \<and> no_repeat pre
          \<and> (e = OS_Twice \<and> os_token dup \<and> filter os_token pre \<noteq> []
             \<or> e = Arch_Twice \<and> arch_token dup \<and> filter arch_token pre \<noteq> []
             \<or> e = Bits_Twice \<and> bits_token dup \<and> filter bits_token pre \<noteq> []))"
proof -
  define good where "good = takeWhile recognized (tokens_of target)"
  define s0 where "s0 = start (base\<lparr>features := 0\<rparr>)"
  have good_ok: "list_all recognized good"
    unfolding good_def list_all_iff by (auto dest: set_takeWhileD)
  have split: "tokens_of target = good @ dropWhile recognized (tokens_of target)"
    by (simp add: good_def)
  from token_loop_recognized [OF good_ok, where target = target and s = s0] rep
  obtain e where fail: "token_loop target good s0 = Inl e"
    by (cases "token_loop target good s0") (simp_all add: s0_def fits_start good_def)
  have whole: "parse_target base target = Inl e"
    by (subst parse_target_alt, subst split) (simp add: token_loop_append fail [unfolded s0_def])
  from token_loop_first_repeat [OF good_ok fail]
  obtain pre dup rest where "good = pre @ dup # rest" and "fits s0 pre"
    and "e = OS_Twice \<and> os_token dup \<and> (os_specified s0 \<or> filter os_token pre \<noteq> [])
        \<or> e = Arch_Twice \<and> arch_token dup \<and> (arch_specified s0 \<or> filter arch_token pre \<noteq> [])
        \<or> e = Bits_Twice \<and> bits_token dup \<and> (bits_specified s0 \<or> filter bits_token pre \<noteq> [])"
    by blast
  moreover have "fits s0 pre = no_repeat pre"
    unfolding s0_def by (rule fits_start)
  moreover have "\<not> os_specified s0" and "\<not> arch_specified s0" and "\<not> bits_specified s0"
    by (simp_all add: s0_def start_def)
  ultimately have found: "good = pre @ dup # rest \<and> no_repeat pre
          \<and> (e = OS_Twice \<and> os_token dup \<and> filter os_token pre \<noteq> []
             \<or> e = Arch_Twice \<and> arch_token dup \<and> filter arch_token pre \<noteq> []
             \<or> e = Bits_Twice \<and> bits_token dup \<and> filter bits_token pre \<noteq> [])"
    by simp
  then have "cerr_output e = []" by auto
  with found whole show ?thesis unfolding good_def by blast
qed

lemma sublist_cerr_target: "sublist target (cerr_output (Did_Not_Understand target))"
  unfolding sublist_def
  by (rule exI [of _ "''Did not understand HL_TARGET=''"],
      rule exI [of _ "[CHR 0x0A] @ expected_format"]) simp

lemma sublist_cerr_format: "sublist expected_format (cerr_output (Did_Not_Understand target))"
  unfolding sublist_def
  by (rule exI [of _ "''Did not understand HL_TARGET='' @ target @ [CHR 0x0A]"],
      rule exI [of _ "[]"]) simp

lemma format_arch_host: "sublist ''arch is host'' expected_format"
  unfolding expected_format_def by code_simp

lemma format_os_host: "sublist ''os is host'' expected_format"
  unfolding expected_format_def by code_simp

section \<open>The override string: fatal errors\<close>

text \<open>
  C4 (amended). For every override string with a token that is not in the token table, the
  parse ends the process and returns no Target. The tokens are handled from left to right
  and the first failure ends the run. When no OS, architecture or bits token is repeated
  among the tokens before the first unrecognized one, the failure is the unrecognized-token
  one, reached after \<open>std::cerr\<close> has received the message holding the whole
  override string and the expected format. Otherwise the failure is a duplicate assertion,
  and the code writes nothing to \<open>std::cerr\<close>: the tokens before the first
  unrecognized one split into a part \<open>pre\<close> without a repeat, the token
  \<open>dup\<close> that follows it and the rest, \<open>dup\<close> is of a category that
  \<open>pre\<close> already has a token of, and the failed assertion is the one of that
  category.
\<close>

theorem parse_target_unrecognized_token:
  "tok \<in> set (tokens_of target) \<Longrightarrow> \<not> recognized tok \<Longrightarrow>
   (\<exists>e. parse_target base target = Inl e
      \<and> (if no_repeat (takeWhile recognized (tokens_of target))
         then e = Did_Not_Understand target
         else cerr_output e = []
           \<and> (\<exists>pre dup rest.
                 takeWhile recognized (tokens_of target) = pre @ dup # rest
                 \<and> no_repeat pre
                 \<and> (e = OS_Twice \<and> os_token dup \<and> filter os_token pre \<noteq> []
                    \<or> e = Arch_Twice \<and> arch_token dup \<and> filter arch_token pre \<noteq> []
                    \<or> e = Bits_Twice \<and> bits_token dup \<and> filter bits_token pre \<noteq> []))))
   \<and> sublist target (cerr_output (Did_Not_Understand target))
   \<and> sublist expected_format (cerr_output (Did_Not_Understand target))"
proof -
  assume "tok \<in> set (tokens_of target)" and "\<not> recognized tok"
  then have bad: "\<not> list_all recognized (tokens_of target)"
    by (auto simp: list_all_iff)
  have "\<exists>e. parse_target base target = Inl e
      \<and> (if no_repeat (takeWhile recognized (tokens_of target))
         then e = Did_Not_Understand target
         else cerr_output e = []
           \<and> (\<exists>pre dup rest.
                 takeWhile recognized (tokens_of target) = pre @ dup # rest
                 \<and> no_repeat pre
                 \<and> (e = OS_Twice \<and> os_token dup \<and> filter os_token pre \<noteq> []
                    \<or> e = Arch_Twice \<and> arch_token dup \<and> filter arch_token pre \<noteq> []
                    \<or> e = Bits_Twice \<and> bits_token dup \<and> filter bits_token pre \<noteq> [])))"
  proof (cases "no_repeat (takeWhile recognized (tokens_of target))")
    case True
    with parse_target_first_unrecognized [OF bad, where base = base]
    show ?thesis by simp
  next
    case False
    with parse_target_repeat_first [OF bad False, where base = base]
    show ?thesis by simp
  qed
  with sublist_cerr_target [of target] sublist_cerr_format [of target]
  show ?thesis by blast
qed

theorem parse_target_unrecognized_token_witness:
  "''bogus'' \<in> set (tokens_of ''x86-bogus-64'') \<and> \<not> recognized ''bogus''
   \<and> parse_target \<lparr>os = OSX, arch = ARM, bits = 32, features = CUDA\<rparr> ''x86-bogus-64''
       = Inl (Did_Not_Understand ''x86-bogus-64'')
   \<and> sublist ''x86-bogus-64'' (cerr_output (Did_Not_Understand ''x86-bogus-64''))
   \<and> sublist ''bogus'' (cerr_output (Did_Not_Understand ''x86-bogus-64''))"
proof -
  have "sublist ''bogus'' (''x86-'' @ ''bogus'' @ ''-64'')"
    by (rule sublist_appendI)
  then have "sublist ''bogus'' ''x86-bogus-64''"
    by simp
  moreover note parse_target_unrecognized_token
    [of "''bogus''" "''x86-bogus-64''" "\<lparr>os = OSX, arch = ARM, bits = 32, features = CUDA\<rparr>"]
  moreover have "''bogus'' \<in> set (tokens_of ''x86-bogus-64'')" and "\<not> recognized ''bogus''"
    and "no_repeat (takeWhile recognized (tokens_of ''x86-bogus-64''))"
    by (simp_all add: tokens_of_def split_tokens.simps recognized_def arch_token_def
        bits_token_def os_token_def feature_token_def no_repeat_def)
  ultimately show ?thesis
    by (auto intro: sublist_order.order.trans)
qed

text \<open>
  The claim as stated fails on "linux-windows-bogus": the token "bogus" is not in the
  table, but the second OS token is met first and the run ends in the assertion
  "Target string specifies OS twice", with nothing written to \<open>std::cerr\<close> by
  the code.
\<close>

theorem parse_target_unrecognized_token_counterexample:
  "''bogus'' \<in> set (tokens_of ''linux-windows-bogus'') \<and> \<not> recognized ''bogus''
   \<and> parse_target \<lparr>os = OSX, arch = ARM, bits = 32, features = CUDA\<rparr> ''linux-windows-bogus''
       = Inl OS_Twice
   \<and> cerr_output OS_Twice = []
   \<and> assert_message OS_Twice = ''Target string specifies OS twice''
   \<and> \<not> sublist ''linux-windows-bogus'' (cerr_output OS_Twice @ assert_message OS_Twice)"
  by (simp add: tokens_of_def split_tokens.simps recognized_def arch_token_def
      bits_token_def os_token_def feature_token_def parse_target_def token_step_def
      match_token_def sublist_code)

text \<open>
  C5 (amended). For every override string with more than one architecture token, more than
  one OS token or more than one bits token, the parse ends the process and returns no
  Target. The failed assertion is one of "specifies OS twice", "specifies architecture
  twice" and "specifies bits twice", and the category it cites has at least two tokens in
  the string, unless an unrecognized token comes before the first repeated token: then the
  unrecognized-token failure is the one reported.
\<close>

theorem parse_target_duplicate_category:
  "1 < length (filter arch_token (tokens_of target))
     \<or> 1 < length (filter os_token (tokens_of target))
     \<or> 1 < length (filter bits_token (tokens_of target)) \<Longrightarrow>
   (\<exists>e. parse_target base target = Inl e
      \<and> (if \<not> list_all recognized (tokens_of target)
            \<and> no_repeat (takeWhile recognized (tokens_of target))
         then e = Did_Not_Understand target
         else e = OS_Twice \<and> 1 < length (filter os_token (tokens_of target))
            \<or> e = Arch_Twice \<and> 1 < length (filter arch_token (tokens_of target))
            \<or> e = Bits_Twice \<and> 1 < length (filter bits_token (tokens_of target))))
   \<and> assert_message OS_Twice = ''Target string specifies OS twice''
   \<and> assert_message Arch_Twice = ''Target string specifies architecture twice''
   \<and> assert_message Bits_Twice = ''Target string specifies bits twice''"
proof -
  assume "1 < length (filter arch_token (tokens_of target))
     \<or> 1 < length (filter os_token (tokens_of target))
     \<or> 1 < length (filter bits_token (tokens_of target))"
  then have rep: "\<not> no_repeat (tokens_of target)"
    by (auto simp: no_repeat_def)
  have "\<exists>e. parse_target base target = Inl e
      \<and> (if \<not> list_all recognized (tokens_of target)
            \<and> no_repeat (takeWhile recognized (tokens_of target))
         then e = Did_Not_Understand target
         else e = OS_Twice \<or> e = Arch_Twice \<or> e = Bits_Twice)"
  proof (cases "list_all recognized (tokens_of target)")
    case True
    from parse_target_all_recognized [OF True, where base = base] rep
    show ?thesis using True by (auto split: sum.splits)
  next
    case False
    from parse_target_first_unrecognized [OF False, where base = base]
    show ?thesis using False by simp
  qed
  then obtain e where fail: "parse_target base target = Inl e"
    and which: "if \<not> list_all recognized (tokens_of target)
            \<and> no_repeat (takeWhile recognized (tokens_of target))
         then e = Did_Not_Understand target
         else e = OS_Twice \<or> e = Arch_Twice \<or> e = Bits_Twice"
    by blast
  from which parse_target_twice [OF fail]
  have "if \<not> list_all recognized (tokens_of target)
            \<and> no_repeat (takeWhile recognized (tokens_of target))
         then e = Did_Not_Understand target
         else e = OS_Twice \<and> 1 < length (filter os_token (tokens_of target))
            \<or> e = Arch_Twice \<and> 1 < length (filter arch_token (tokens_of target))
            \<or> e = Bits_Twice \<and> 1 < length (filter bits_token (tokens_of target))"
    by (auto split: if_splits)
  with fail show ?thesis by simp
qed

theorem parse_target_duplicate_category_witness:
  "(1 < length (filter arch_token (tokens_of ''linux-windows''))
     \<or> 1 < length (filter os_token (tokens_of ''linux-windows''))
     \<or> 1 < length (filter bits_token (tokens_of ''linux-windows'')))
   \<and> parse_target \<lparr>os = OSX, arch = ARM, bits = 32, features = CUDA\<rparr> ''linux-windows''
       = Inl OS_Twice
   \<and> assert_message OS_Twice = ''Target string specifies OS twice''"
  using parse_target_duplicate_category
    [of "''linux-windows''" "\<lparr>os = OSX, arch = ARM, bits = 32, features = CUDA\<rparr>"]
  by (simp add: tokens_of_def split_tokens.simps recognized_def arch_token_def
      bits_token_def os_token_def feature_token_def no_repeat_def)

text \<open>
  The claim as stated fails on "bogus-linux-windows": the OS is given twice, but the
  unrecognized token comes first and the run ends in the unrecognized-token failure, which
  cites no category.
\<close>

theorem parse_target_duplicate_category_counterexample:
  "1 < length (filter os_token (tokens_of ''bogus-linux-windows''))
   \<and> parse_target \<lparr>os = OSX, arch = ARM, bits = 32, features = CUDA\<rparr> ''bogus-linux-windows''
       = Inl (Did_Not_Understand ''bogus-linux-windows'')
   \<and> assert_message (Did_Not_Understand ''bogus-linux-windows'') = ''false''
   \<and> cerr_output (Did_Not_Understand ''bogus-linux-windows'')
       = ''Did not understand HL_TARGET=bogus-linux-windows'' @ [CHR 0x0A] @ expected_format"
  by (simp add: tokens_of_def split_tokens.simps arch_token_def
      bits_token_def os_token_def feature_token_def parse_target_def token_step_def
      match_token_def)

text \<open>
  C8 (amended). For every override string with two consecutive hyphens or a hyphen at its
  end, the splitting loop produces the empty string as a token; the empty string is in no
  entry of the token table, so the parse ends the process and returns no Target. The
  failure is the unrecognized-token one when no OS, architecture or bits token is repeated
  before the first unrecognized token, and the duplicate assertion of the repeated category
  otherwise.
\<close>

theorem parse_target_empty_segment:
  "sublist ''--'' target \<or> suffix ''-'' target \<Longrightarrow>
   [] \<in> set (tokens_of target) \<and> \<not> recognized []
   \<and> (\<exists>e. parse_target base target = Inl e
      \<and> (if no_repeat (takeWhile recognized (tokens_of target))
         then e = Did_Not_Understand target
         else e = OS_Twice \<or> e = Arch_Twice \<or> e = Bits_Twice))"
proof -
  assume "sublist ''--'' target \<or> suffix ''-'' target"
  then have tok: "[] \<in> set (tokens_of target)"
    by (rule empty_token)
  with not_recognized_empty have "\<not> list_all recognized (tokens_of target)"
    by (auto simp: list_all_iff)
  from parse_target_first_unrecognized [OF this, where base = base] tok not_recognized_empty
  show ?thesis by blast
qed

theorem parse_target_empty_segment_witness:
  "(sublist ''--'' ''x86--64'' \<or> suffix ''-'' ''x86--64'')
   \<and> tokens_of ''x86--64'' = [''x86'', [], ''64'']
   \<and> parse_target \<lparr>os = OSX, arch = ARM, bits = 32, features = CUDA\<rparr> ''x86--64''
       = Inl (Did_Not_Understand ''x86--64'')
   \<and> tokens_of ''x86-'' = [''x86'', []]
   \<and> parse_target \<lparr>os = OSX, arch = ARM, bits = 32, features = CUDA\<rparr> ''x86-''
       = Inl (Did_Not_Understand ''x86-'')"
proof -
  have "sublist ''--'' (''x86'' @ ''--'' @ ''64'')"
    by (rule sublist_appendI)
  then have hyp: "sublist ''--'' ''x86--64'' \<or> suffix ''-'' ''x86--64''"
    by simp
  have "suffix ''-'' (''x86'' @ ''-'')"
    by (rule suffix_appendI) simp
  then have hyp2: "sublist ''--'' ''x86-'' \<or> suffix ''-'' ''x86-''"
    by simp
  from parse_target_empty_segment
    [OF hyp, where base = "\<lparr>os = OSX, arch = ARM, bits = 32, features = CUDA\<rparr>"]
    parse_target_empty_segment
    [OF hyp2, where base = "\<lparr>os = OSX, arch = ARM, bits = 32, features = CUDA\<rparr>"]
    hyp
  show ?thesis
    by (simp add: tokens_of_def split_tokens.simps recognized_def arch_token_def
        bits_token_def os_token_def feature_token_def no_repeat_def)
qed

text \<open>
  The claim as stated fails on "x86-arm-": the empty last token is produced, but the second
  architecture token is met first and the run ends in the assertion
  "Target string specifies architecture twice".
\<close>

theorem parse_target_empty_segment_counterexample:
  "suffix ''-'' ''x86-arm-''
   \<and> tokens_of ''x86-arm-'' = [''x86'', ''arm'', []]
   \<and> parse_target \<lparr>os = OSX, arch = ARM, bits = 32, features = CUDA\<rparr> ''x86-arm-''
       = Inl Arch_Twice
   \<and> cerr_output Arch_Twice = []"
proof -
  have "suffix ''-'' (''x86-arm'' @ ''-'')"
    by (rule suffix_appendI) simp
  then show ?thesis
    by (simp add: tokens_of_def split_tokens.simps parse_target_def token_step_def
        match_token_def)
qed

text \<open>
  C10 (amended). For every override string with the token "host", the parse ends the
  process and returns no Target: "host" is not in the token table, although the message of
  the unrecognized-token failure lists it ("arch is host", "os is host"). The failure is
  the unrecognized-token one when no OS, architecture or bits token is repeated before the
  first unrecognized token, and the duplicate assertion of the repeated category otherwise.
\<close>

theorem parse_target_host:
  "''host'' \<in> set (tokens_of target) \<Longrightarrow>
   \<not> recognized ''host''
   \<and> (\<exists>e. parse_target base target = Inl e
      \<and> (if no_repeat (takeWhile recognized (tokens_of target))
         then e = Did_Not_Understand target
         else e = OS_Twice \<or> e = Arch_Twice \<or> e = Bits_Twice))
   \<and> sublist ''arch is host'' (cerr_output (Did_Not_Understand target))
   \<and> sublist ''os is host'' (cerr_output (Did_Not_Understand target))"
proof -
  assume tok: "''host'' \<in> set (tokens_of target)"
  with not_recognized_host have "\<not> list_all recognized (tokens_of target)"
    by (auto simp: list_all_iff)
  note fail = parse_target_first_unrecognized [OF this, where base = base]
  have "sublist ''arch is host'' (cerr_output (Did_Not_Understand target))"
    using format_arch_host sublist_cerr_format [of target]
    by (rule sublist_order.order.trans)
  moreover have "sublist ''os is host'' (cerr_output (Did_Not_Understand target))"
    using format_os_host sublist_cerr_format [of target]
    by (rule sublist_order.order.trans)
  ultimately show ?thesis using fail not_recognized_host by blast
qed

theorem parse_target_host_witness:
  "''host'' \<in> set (tokens_of ''host-cuda'')
   \<and> parse_target \<lparr>os = OSX, arch = ARM, bits = 32, features = CUDA\<rparr> ''host-cuda''
       = Inl (Did_Not_Understand ''host-cuda'')"
  using parse_target_host
    [of "''host-cuda''" "\<lparr>os = OSX, arch = ARM, bits = 32, features = CUDA\<rparr>"]
  by (simp add: tokens_of_def split_tokens.simps recognized_def arch_token_def
      bits_token_def os_token_def feature_token_def no_repeat_def)

text \<open>
  The claim as stated fails on "32-64-host": the second bits token is met before "host" and
  the run ends in the assertion "Target string specifies bits twice".
\<close>

theorem parse_target_host_counterexample:
  "''host'' \<in> set (tokens_of ''32-64-host'')
   \<and> parse_target \<lparr>os = OSX, arch = ARM, bits = 32, features = CUDA\<rparr> ''32-64-host''
       = Inl Bits_Twice
   \<and> cerr_output Bits_Twice = []"
  by (simp add: tokens_of_def split_tokens.simps parse_target_def token_step_def
      match_token_def)

section \<open>Selection and linking of the modules\<close>

lemma selected_modules_ok:
  "bits tg = 32 \<or> bits tg = 64 \<Longrightarrow>
   selected_modules tg =
     Inr (os_modules tg (bits tg = 64) @ always_modules (bits tg = 64)
          @ optional_modules tg (bits tg = 64))"
  by (auto simp: selected_modules_def)

lemma no_accelerator_os: "filter accelerator (os_modules tg b) = []"
  by (simp add: os_modules_def get_initmod_def accelerator_component_def)

lemma no_accelerator_always: "filter accelerator (always_modules b) = []"
  by (simp add: always_modules_def get_initmod_def accelerator_component_def)

lemma one_accelerator_optional:
  "filter accelerator (optional_modules tg b) =
     [get_initmod
        (if has_feature (features tg) CUDA then
           (if has_feature (features tg) GPUDebug then cuda_debug else cuda)
         else if has_feature (features tg) OpenCL then
           (if has_feature (features tg) GPUDebug then opencl_debug else opencl)
         else nogpu) b]"
  by (simp add: optional_modules_def get_initmod_def accelerator_component_def)

lemma link_loop_merge:
  "link_loop (\<lambda>dest src. Inr (merge dest src)) m0 ms = Inr (foldl merge m0 ms)"
  by (induction ms arbitrary: m0) simp_all

text \<open>
  C2. For every Target (its bits are 32 or 64, the invariant of the Target value, which the
  assertion at the head of the function checks), the modules selected hold exactly one
  accelerator module: CUDA when the CUDA flag is set, else OpenCL when the OpenCL flag is
  set, else the no-GPU module, the first two in their debug variant exactly when GPUDebug is
  set. With CUDA and OpenCL both set the choice is CUDA. The selected modules are the ones
  linked.
\<close>

theorem get_initial_module_one_accelerator:
  "bits tg = 32 \<or> bits tg = 64 \<Longrightarrow>
   (\<exists>modules. selected_modules tg = Inr modules
      \<and> filter accelerator modules =
          [get_initmod
             (if has_feature (features tg) CUDA then
                (if has_feature (features tg) GPUDebug then cuda_debug else cuda)
              else if has_feature (features tg) OpenCL then
                (if has_feature (features tg) GPUDebug then opencl_debug else opencl)
              else nogpu)
             (bits tg = 64)]
      \<and> length (filter accelerator modules) = 1
      \<and> modules \<noteq> []
      \<and> get_initial_module_for_target LinkModules parse tg =
          link_loop LinkModules (parse (hd modules)) (map parse (tl modules)))"
proof -
  assume valid: "bits tg = 32 \<or> bits tg = 64"
  define modules where
    "modules = os_modules tg (bits tg = 64) @ always_modules (bits tg = 64)
                 @ optional_modules tg (bits tg = 64)"
  have sel: "selected_modules tg = Inr modules"
    unfolding modules_def using valid by (rule selected_modules_ok)
  have acc: "filter accelerator modules =
          [get_initmod
             (if has_feature (features tg) CUDA then
                (if has_feature (features tg) GPUDebug then cuda_debug else cuda)
              else if has_feature (features tg) OpenCL then
                (if has_feature (features tg) GPUDebug then opencl_debug else opencl)
              else nogpu)
             (bits tg = 64)]"
    unfolding modules_def
    by (simp only: filter_append no_accelerator_os no_accelerator_always
        one_accelerator_optional append_Nil)
  have ne: "modules \<noteq> []"
    by (simp add: modules_def always_modules_def)
  have "get_initial_module_for_target LinkModules parse tg =
          link_loop LinkModules (parse (hd modules)) (map parse (tl modules))"
    using ne by (cases modules) (simp_all add: get_initial_module_for_target_def sel)
  with sel acc ne show ?thesis by simp
qed

theorem get_initial_module_one_accelerator_witness:
  "(bits \<lparr>os = Windows, arch = X86, bits = 32, features = CUDA OR OpenCL\<rparr> = 32
    \<or> bits \<lparr>os = Windows, arch = X86, bits = 32, features = CUDA OR OpenCL\<rparr> = 64)
   \<and> selected_modules \<lparr>os = Windows, arch = X86, bits = 32, features = CUDA OR OpenCL\<rparr>
       = Inr [Initmod_32 posix_clock, Initmod_32 posix_io, Initmod_32 fake_thread_pool,
              Initmod_32 posix_math, Initmod_ll posix_math_ll, Initmod_32 tracing,
              Initmod_32 write_debug_image, Initmod_32 posix_allocator,
              Initmod_32 posix_error_handler, Initmod_ll x86_ll, Initmod_32 cuda]
   \<and> filter accelerator
        [Initmod_32 posix_clock, Initmod_32 posix_io, Initmod_32 fake_thread_pool,
         Initmod_32 posix_math, Initmod_ll posix_math_ll, Initmod_32 tracing,
         Initmod_32 write_debug_image, Initmod_32 posix_allocator,
         Initmod_32 posix_error_handler, Initmod_ll x86_ll, Initmod_32 cuda]
       = [Initmod_32 cuda]"
  using get_initial_module_one_accelerator
    [of "\<lparr>os = Windows, arch = X86, bits = 32, features = CUDA OR OpenCL\<rparr>"
        "\<lambda>dest src. Inr (dest @ src)" "\<lambda>m. [m]"]
  by (simp add: selected_modules_def os_modules_def always_modules_def
      optional_modules_def get_initmod_def has_feature_def accelerator_component_def
      SSE41_def AVX_def CUDA_def OpenCL_def GPUDebug_def)

text \<open>
  C6. For os = Linux, arch = X86, bits = 64 and no feature, the modules selected are, in
  this order: the four of the Linux bundle in their 64-bit variant, the six that are always
  included, the x86 low-level module and the no-GPU module. No module occurs twice. The
  function links the eleven later modules into the first one and returns that single module;
  with a linker that never reports failure the result is the fold of its merge over them.
\<close>

theorem get_initial_module_linux_x86_64:
  "selected_modules \<lparr>os = Linux, arch = X86, bits = 64, features = 0\<rparr>
     = Inr [Initmod_64 linux_clock, Initmod_64 posix_io, Initmod_64 linux_host_cpu_count,
            Initmod_64 posix_thread_pool,
            Initmod_64 posix_math, Initmod_ll posix_math_ll, Initmod_64 tracing,
            Initmod_64 write_debug_image, Initmod_64 posix_allocator,
            Initmod_64 posix_error_handler,
            Initmod_ll x86_ll,
            Initmod_64 nogpu]
   \<and> distinct [Initmod_64 linux_clock, Initmod_64 posix_io, Initmod_64 linux_host_cpu_count,
            Initmod_64 posix_thread_pool,
            Initmod_64 posix_math, Initmod_ll posix_math_ll, Initmod_64 tracing,
            Initmod_64 write_debug_image, Initmod_64 posix_allocator,
            Initmod_64 posix_error_handler,
            Initmod_ll x86_ll,
            Initmod_64 nogpu]
   \<and> get_initial_module_for_target LinkModules parse
        \<lparr>os = Linux, arch = X86, bits = 64, features = 0\<rparr>
     = link_loop LinkModules (parse (Initmod_64 linux_clock))
         (map parse
           [Initmod_64 posix_io, Initmod_64 linux_host_cpu_count,
            Initmod_64 posix_thread_pool,
            Initmod_64 posix_math, Initmod_ll posix_math_ll, Initmod_64 tracing,
            Initmod_64 write_debug_image, Initmod_64 posix_allocator,
            Initmod_64 posix_error_handler,
            Initmod_ll x86_ll,
            Initmod_64 nogpu])
   \<and> get_initial_module_for_target (\<lambda>dest src. Inr (merge dest src)) parse
        \<lparr>os = Linux, arch = X86, bits = 64, features = 0\<rparr>
     = Inr (foldl merge (parse (Initmod_64 linux_clock))
         (map parse
           [Initmod_64 posix_io, Initmod_64 linux_host_cpu_count,
            Initmod_64 posix_thread_pool,
            Initmod_64 posix_math, Initmod_ll posix_math_ll, Initmod_64 tracing,
            Initmod_64 write_debug_image, Initmod_64 posix_allocator,
            Initmod_64 posix_error_handler,
            Initmod_ll x86_ll,
            Initmod_64 nogpu]))"
proof -
  have sel: "selected_modules \<lparr>os = Linux, arch = X86, bits = 64, features = 0\<rparr>
     = Inr [Initmod_64 linux_clock, Initmod_64 posix_io, Initmod_64 linux_host_cpu_count,
            Initmod_64 posix_thread_pool,
            Initmod_64 posix_math, Initmod_ll posix_math_ll, Initmod_64 tracing,
            Initmod_64 write_debug_image, Initmod_64 posix_allocator,
            Initmod_64 posix_error_handler,
            Initmod_ll x86_ll,
            Initmod_64 nogpu]"
    by (simp add: selected_modules_def os_modules_def always_modules_def
        optional_modules_def get_initmod_def has_feature_def)
  show ?thesis
    unfolding get_initial_module_for_target_def sel
    by (simp add: link_loop_merge del: link_loop.simps foldl.simps)
qed

end
